theory Spec2Isabelle
  imports Main "HOL-Library.Sublist"
begin

section \<open>The gulpfile of the static-site boilerplate\<close>

text \<open>
  The build script \<^verbatim>\<open>gulpfile.js\<close> is evaluated once when the process starts: it reads the
  environment, binds four constants (\<^verbatim>\<open>isProd\<close>, \<^verbatim>\<open>dirs\<close>, \<^verbatim>\<open>paths\<close>, \<^verbatim>\<open>pluginConfig\<close>) and
  registers its tasks. The constants are modelled as one record built by \<open>load\<close>; every task
  is a function of that record, as every task body in the script closes over the constants.
\<close>

subsection \<open>Environment\<close>

text \<open>
  \<^verbatim>\<open>process.env\<close>: variables with string values; a variable that is absent reads as
  \<^verbatim>\<open>undefined\<close>, here \<open>None\<close>.
\<close>

type_synonym env = "(string \<times> string) list"

definition getenv :: "env \<Rightarrow> string \<Rightarrow> string option" where
  "getenv e k = map_of e k"

text \<open>A JavaScript value that is a string or a number (the port option is either).\<close>

datatype js_value = Str string | Num nat

text \<open>
  \<^verbatim>\<open>process.env.X || d\<close>: the variable's value when it is truthy, and a string is truthy
  exactly when it is not empty; the default otherwise.
\<close>

definition env_or :: "string option \<Rightarrow> nat \<Rightarrow> js_value" where
  "env_or v d = (case v of None \<Rightarrow> Num d | Some s \<Rightarrow> if s = [] then Num d else Str s)"

subsection \<open>Directories and paths\<close>

record dirs_t =
  entry :: string
  output' :: string

record 'a path_t =
  src :: 'a
  dest :: string

record paths_t =
  views :: "string path_t"
  media :: "string path_t"
  styles :: "string path_t"
  scripts :: "string list path_t"

definition mk_paths :: "dirs_t \<Rightarrow> paths_t" where
  "mk_paths d =
     \<lparr> views = \<lparr> src = entry d @ ''/views/**/*'', dest = output' d \<rparr>,
       media = \<lparr> src = entry d @ ''/media/**/*.+(gif|jpg|jpeg|png|svg)'',
                 dest = output' d @ ''/static/media'' \<rparr>,
       styles = \<lparr> src = entry d @ ''/styles/**/*.+(css|scss)'',
                  dest = output' d @ ''/static/styles'' \<rparr>,
       scripts = \<lparr> src = [entry d @ ''/scripts/**/*.js'',
                           ''!'' @ entry d @ ''/scripts/**/*.module.js''],
                   dest = output' d @ ''/static/scripts'' \<rparr> \<rparr>"

subsection \<open>Plugin configuration\<close>

record autoprefixer_cfg =
  browsers :: "string list"

record server_cfg =
  baseDir :: string

record browserSync_cfg =
  port :: js_value
  server :: server_cfg

text \<open>
  What a handler or callback of the script does, in order. A console write is the list
  of its parts; \<open>Time\<close> stands for the time of day that the logger prints.
\<close>

datatype log_part = Text string | Number nat | Time

record notification =
  title :: string
  message :: string
  sound :: string

datatype effect =
    ConsoleLog "log_part list"
  | Notify notification
  | Emit string

record cleanCSS_details =
  name :: string
  originalSize :: nat
  minifiedSize :: nat

record cleanCSS_cfg =
  debug :: bool
  callback :: "cleanCSS_details \<Rightarrow> effect list"

datatype imagemin_plugin =
    Gifsicle bool nat
  | Jpegtran bool
  | Optipng nat
  | Svgo "(string \<times> bool) list"

datatype js_error = Error (error_message: string)

record plumber_cfg =
  errorHandler :: "js_error \<Rightarrow> effect list"

record sass_cfg =
  outputStyle :: string
  includePaths :: "string list"

text \<open>The one regular expression of the script tests a file name for a suffix.\<close>

datatype js_regex = EndsWith string

record webpack_rule =
  test :: js_regex
  loader :: string
  presets :: "string list"

datatype webpack_plugin = MinifyPlugin bool

record webpack_cfg =
  devtool :: string
  rules :: "webpack_rule list"
  plugins :: "webpack_plugin list"

record pluginConfig_t =
  autoprefixer :: autoprefixer_cfg
  browserSync :: browserSync_cfg
  cleanCSS :: cleanCSS_cfg
  imagemin :: "imagemin_plugin list"
  plumber :: plumber_cfg
  sass :: sass_cfg
  sourcemaps :: string
  webpack :: webpack_cfg

text \<open>
  The notification plugin renders the title and the message of its options as templates in
  which \<^verbatim>\<open><%= error.message %>\<close> stands for the message of the error it was called with.
\<close>

definition error_message_tag :: string where
  "error_message_tag = ''<%= error.message %>''"

fun render :: "string \<Rightarrow> js_error \<Rightarrow> string" where
  "render [] e = []"
| "render (c # cs) e =
     (if prefix error_message_tag (c # cs)
      then error_message e @ render (drop (length error_message_tag - 1) cs) e
      else c # render cs e)"

text \<open>
  The function that \<^verbatim>\<open>notify.onError(options)\<close> returns, applied to an error on a
  stream: it reports the rendered title and message through the logger, which writes the
  time and then the line (colours left out), it shows the notification, and it emits
  \<^verbatim>\<open>end\<close> on the stream itself.
\<close>

definition notify_onError :: "notification \<Rightarrow> js_error \<Rightarrow> effect list" where
  "notify_onError opts e =
     (let n = \<lparr> title = render (title opts) e, message = render (message opts) e,
                 sound = sound opts \<rparr>
      in [ ConsoleLog [Time, Text '' ''],
           ConsoleLog [Text ''gulp-notify:'', Text '' '', Text (''['' @ title n @ '']''),
                       Text '' '', Text (message n)],
           Notify n,
           Emit ''end'' ])"

text \<open>
  The handler of the script applies that function and then emits \<^verbatim>\<open>end\<close> once more.
\<close>

definition plumber_errorHandler :: "js_error \<Rightarrow> effect list" where
  "plumber_errorHandler e =
     notify_onError \<lparr> title = ''Compile Error'', message = ''<%= error.message %>'',
                       sound = ''Funk'' \<rparr> e
     @ [Emit ''end'']"

definition cleanCSS_callback :: "cleanCSS_details \<Rightarrow> effect list" where
  "cleanCSS_callback d =
     [ ConsoleLog [Text ''Original size of '', Text (name d), Text '': '',
                   Number (originalSize d), Text '' bytes''],
       ConsoleLog [Text ''Minified size of '', Text (name d), Text '': '',
                   Number (minifiedSize d), Text '' bytes''] ]"

definition mk_pluginConfig :: "env \<Rightarrow> bool \<Rightarrow> dirs_t \<Rightarrow> pluginConfig_t" where
  "mk_pluginConfig e flag d =
     \<lparr> autoprefixer = \<lparr> browsers = [''last 2 versions''] \<rparr>,
       browserSync = \<lparr> port = env_or (getenv e ''PORT'') 3000,
                       server = \<lparr> baseDir = output' d \<rparr> \<rparr>,
       cleanCSS = \<lparr> debug = True, callback = cleanCSS_callback \<rparr>,
       imagemin = [ Gifsicle True 3, Jpegtran True, Optipng 7,
                    Svgo [(''removeUselessDefs'', False), (''cleanupIDs'', False)] ],
       plumber = \<lparr> errorHandler = plumber_errorHandler \<rparr>,
       sass = \<lparr> outputStyle = ''expanded'', includePaths = [''node_modules''] \<rparr>,
       sourcemaps = ''.'',
       webpack = \<lparr> devtool = (if flag then ''cheap-source-map''
                                else ''cheap-eval-source-map''),
                   rules = [\<lparr> test = EndsWith ''.js'', loader = ''babel-loader'',
                              presets = [''env''] \<rparr>],
                   plugins = (if flag then [MinifyPlugin True] else []) \<rparr> \<rparr>"

subsection \<open>Loading the script\<close>

record gulpfile =
  isProd :: bool
  dirs :: dirs_t
  paths :: paths_t
  pluginConfig :: pluginConfig_t

definition load :: "env \<Rightarrow> gulpfile" where
  "load e =
     (let flag = (getenv e ''NODE_ENV'' = Some ''production'');
          d = \<lparr> entry = ''src'', output' = ''build'' \<rparr>
      in \<lparr> isProd = flag, dirs = d, paths = mk_paths d,
           pluginConfig = mk_pluginConfig e flag d \<rparr>)"

subsection \<open>Stream stages and tasks\<close>

datatype stage =
    Plumber plumber_cfg
  | Noop
  | Changed string
  | Imagemin "imagemin_plugin list"
  | SourcemapsInit
  | Sass sass_cfg
  | Autoprefixer autoprefixer_cfg
  | CleanCSS cleanCSS_cfg
  | SourcemapsWrite string
  | Named
  | Webpack webpack_cfg
  | Dest string
  | BrowserSyncStream

text \<open>The stages each asset task pipes its input through, in the order of the script.\<close>

definition views_stages :: "gulpfile \<Rightarrow> stage list" where
  "views_stages g =
     [ Plumber (plumber (pluginConfig g)),
       (if isProd g then Noop else Changed (dest (views (paths g)))),
       Dest (dest (views (paths g))) ]"

definition media_stages :: "gulpfile \<Rightarrow> stage list" where
  "media_stages g =
     [ Plumber (plumber (pluginConfig g)),
       (if isProd g then Noop else Changed (dest (media (paths g)))),
       (if isProd g then Imagemin (imagemin (pluginConfig g)) else Noop),
       Dest (dest (media (paths g))),
       (if isProd g then Noop else BrowserSyncStream) ]"

definition styles_stages :: "gulpfile \<Rightarrow> stage list" where
  "styles_stages g =
     [ Plumber (plumber (pluginConfig g)),
       (if isProd g then Noop else Changed (dest (styles (paths g)))),
       SourcemapsInit,
       Sass (sass (pluginConfig g)),
       Autoprefixer (autoprefixer (pluginConfig g)),
       (if isProd g then CleanCSS (cleanCSS (pluginConfig g)) else Noop),
       SourcemapsWrite (sourcemaps (pluginConfig g)),
       Dest (dest (styles (paths g))),
       (if isProd g then Noop else BrowserSyncStream) ]"

definition scripts_stages :: "gulpfile \<Rightarrow> stage list" where
  "scripts_stages g =
     [ Plumber (plumber (pluginConfig g)),
       Named,
       Webpack (webpack (pluginConfig g)),
       Dest (dest (scripts (paths g))) ]"

text \<open>A step of \<^verbatim>\<open>runSequence\<close>: one task, or an array of tasks run together.\<close>

datatype step = Task string | Parallel "string list"

text \<open>What a task body does.\<close>

datatype action =
    Pipeline "string list" "stage list"
  | BrowserSyncInit browserSync_cfg
  | BrowserSyncReload
  | Done
  | Watch "string option" "string list"
  | Del "string list"
  | RunSequence "step list"

record gulp_task =
  deps :: "string list"
  body :: "action list"

definition default_steps :: "gulpfile \<Rightarrow> step list" where
  "default_steps g =
     (let compile = [''views'', ''media'', ''styles'', ''scripts'']
      in if isProd g then [Task ''clean'', Parallel compile]
         else [Task ''clean'', Parallel compile, Task ''serve'', Task ''watch''])"

text \<open>
  The watchers that the watch task installs. The last one watches the first glob of the
  scripts task; reading the first element of an empty array gives \<^verbatim>\<open>undefined\<close>, here
  \<open>None\<close>.
\<close>

definition watch_actions :: "gulpfile \<Rightarrow> action list" where
  "watch_actions g =
     [ Watch (Some (src (views (paths g)))) [''views:watch''],
       Watch (Some (src (media (paths g)))) [''media''],
       Watch (Some (src (styles (paths g)))) [''styles''],
       Watch (case src (scripts (paths g)) of [] \<Rightarrow> None | s # _ \<Rightarrow> Some s)
             [''scripts:watch''] ]"

text \<open>The tasks the script registers, by name; \<open>None\<close> for a name it does not register.\<close>

definition gulp_tasks :: "gulpfile \<Rightarrow> string \<Rightarrow> gulp_task option" where
  "gulp_tasks g n =
     (if n = ''views'' then
        Some \<lparr> deps = [], body = [Pipeline [src (views (paths g))] (views_stages g)] \<rparr>
      else if n = ''media'' then
        Some \<lparr> deps = [], body = [Pipeline [src (media (paths g))] (media_stages g)] \<rparr>
      else if n = ''styles'' then
        Some \<lparr> deps = [], body = [Pipeline [src (styles (paths g))] (styles_stages g)] \<rparr>
      else if n = ''scripts'' then
        Some \<lparr> deps = [], body = [Pipeline (src (scripts (paths g))) (scripts_stages g)] \<rparr>
      else if n = ''serve'' then
        Some \<lparr> deps = [], body = [BrowserSyncInit (browserSync (pluginConfig g))] \<rparr>
      else if n = ''views:watch'' then
        Some \<lparr> deps = [''views''], body = [BrowserSyncReload, Done] \<rparr>
      else if n = ''scripts:watch'' then
        Some \<lparr> deps = [''scripts''], body = [BrowserSyncReload, Done] \<rparr>
      else if n = ''watch'' then
        Some \<lparr> deps = [], body = watch_actions g \<rparr>
      else if n = ''clean'' then
        Some \<lparr> deps = [], body = [Del [output' (dirs g)]] \<rparr>
      else if n = ''default'' then
        Some \<lparr> deps = [], body = [RunSequence (default_steps g)] \<rparr>
      else None)"

text \<open>The four asset-processing tasks and the stages of each.\<close>

definition asset_tasks :: "string list" where
  "asset_tasks = [''views'', ''media'', ''styles'', ''scripts'']"

definition task_stages :: "gulpfile \<Rightarrow> string \<Rightarrow> stage list" where
  "task_stages g n =
     (case gulp_tasks g n of
        None \<Rightarrow> []
      | Some t \<Rightarrow> concat (map (\<lambda>a. case a of Pipeline _ st \<Rightarrow> st | _ \<Rightarrow> []) (body t)))"

text \<open>The directories that the stages of a task write to, and its error-reporting stages.\<close>

definition dests :: "stage list \<Rightarrow> string list" where
  "dests st = concat (map (\<lambda>s. case s of Dest d \<Rightarrow> [d] | _ \<Rightarrow> []) st)"

definition plumbers :: "stage list \<Rightarrow> plumber_cfg list" where
  "plumbers st = concat (map (\<lambda>s. case s of Plumber c \<Rightarrow> [c] | _ \<Rightarrow> []) st)"

text \<open>Every path string the script configures: the two directories, then each glob and
  destination in the order of \<^verbatim>\<open>paths\<close>.\<close>

definition configured_paths :: "gulpfile \<Rightarrow> string list" where
  "configured_paths g =
     [ entry (dirs g), output' (dirs g),
       src (views (paths g)), dest (views (paths g)),
       src (media (paths g)), dest (media (paths g)),
       src (styles (paths g)), dest (styles (paths g)) ]
     @ src (scripts (paths g)) @ [dest (scripts (paths g))]"

definition slash_free :: "string \<Rightarrow> bool" where
  "slash_free s = (s \<noteq> [] \<and> CHR ''/'' \<notin> set s)"

definition no_outer_slash :: "string \<Rightarrow> bool" where
  "no_outer_slash s = (case s of [] \<Rightarrow> False | c # _ \<Rightarrow> c \<noteq> CHR ''/'' \<and> last s \<noteq> CHR ''/'')"

subsection \<open>The running process\<close>

text \<open>
  After the script is loaded the process holds the loaded constants beside its environment.
  The environment stays assignable while the process runs; a task that runs uses the loaded
  constants only.
\<close>

record process =
  penv :: env
  script :: gulpfile
  ran :: "(string \<times> gulp_task option) list"

datatype proc_event = SetEnv string "string option" | RunTask string

definition startup :: "env \<Rightarrow> process" where
  "startup e = \<lparr> penv = e, script = load e, ran = [] \<rparr>"

fun exec :: "process \<Rightarrow> proc_event \<Rightarrow> process" where
  "exec p (SetEnv k v) =
     p \<lparr> penv := (case v of None \<Rightarrow> filter (\<lambda>kv. fst kv \<noteq> k) (penv p)
                   | Some s \<Rightarrow> (k, s) # penv p) \<rparr>"
| "exec p (RunTask n) = p \<lparr> ran := ran p @ [(n, gulp_tasks (script p) n)] \<rparr>"

subsection \<open>Running tasks\<close>

text \<open>
  The task runner starts a task after the tasks it depends on have finished. A run is the
  list of what happens, in order: a task starts, its body performs its actions, the task
  finishes. The depth of the dependency chain that a run may follow is bounded by a
  counter; a name that is not registered, or a chain deeper than the bound, gives no run.
\<close>

datatype event = Start string | Do string action | Finish string

fun task_of :: "event \<Rightarrow> string" where
  "task_of (Start n) = n"
| "task_of (Do n a) = n"
| "task_of (Finish n) = n"

definition task_run :: "string \<Rightarrow> action list \<Rightarrow> event list" where
  "task_run n acts = Start n # map (Do n) acts @ [Finish n]"

fun gulp_run :: "nat \<Rightarrow> gulpfile \<Rightarrow> string \<Rightarrow> event list option" where
  "gulp_run 0 g n = None"
| "gulp_run (Suc k) g n =
     (case gulp_tasks g n of
        None \<Rightarrow> None
      | Some t \<Rightarrow>
          (case those (map (gulp_run k g) (deps t)) of
             None \<Rightarrow> None
           | Some rs \<Rightarrow> Some (concat rs @ task_run n (body t))))"

text \<open>The runs of the four compile tasks, none of which has a prerequisite.\<close>

definition compile_runs :: "gulpfile \<Rightarrow> event list list" where
  "compile_runs g =
     [ task_run ''views'' [Pipeline [src (views (paths g))] (views_stages g)],
       task_run ''media'' [Pipeline [src (media (paths g))] (media_stages g)],
       task_run ''styles'' [Pipeline [src (styles (paths g))] (styles_stages g)],
       task_run ''scripts'' [Pipeline (src (scripts (paths g))) (scripts_stages g)] ]"

text \<open>\<open>before a b tr\<close>: \<open>a\<close> happens in \<open>tr\<close> earlier than any \<open>b\<close> does.\<close>

definition before :: "event \<Rightarrow> event \<Rightarrow> event list \<Rightarrow> bool" where
  "before a b tr = (a \<in> set (takeWhile (\<lambda>e. e \<noteq> b) tr))"

text \<open>
  Tasks that run together interleave: \<open>interleaved rs tr\<close> holds when \<open>tr\<close> is a merge of
  the runs \<open>rs\<close> that keeps the order of each. \<open>pick x rs\<close> lists the ways of taking \<open>x\<close>
  from the front of one of the runs.
\<close>

fun pick :: "'a \<Rightarrow> 'a list list \<Rightarrow> 'a list list list" where
  "pick x [] = []"
| "pick x (r # rs) =
     (case r of [] \<Rightarrow> [] | y # ys \<Rightarrow> if y = x then [ys # rs] else [])
     @ map ((#) r) (pick x rs)"

fun interleaved :: "'a list list \<Rightarrow> 'a list \<Rightarrow> bool" where
  "interleaved rs [] = list_all (\<lambda>r. r = []) rs"
| "interleaved rs (x # xs) = list_ex (\<lambda>rs'. interleaved rs' xs) (pick x rs)"

text \<open>
  \<^verbatim>\<open>runSequence\<close> runs its steps in the order given, each step only after the one before
  it has finished; the tasks of an array step run together. \<open>is_trace k g steps tr\<close> holds
  when \<open>tr\<close> is a run of \<open>steps\<close>.
\<close>

fun is_trace :: "nat \<Rightarrow> gulpfile \<Rightarrow> step list \<Rightarrow> event list \<Rightarrow> bool" where
  "is_trace k g [] tr = (tr = [])"
| "is_trace k g (Task n # ss) tr =
     (case gulp_run k g n of
        None \<Rightarrow> False
      | Some r \<Rightarrow> take (length r) tr = r \<and> is_trace k g ss (drop (length r) tr))"
| "is_trace k g (Parallel ns # ss) tr =
     (case those (map (gulp_run k g) ns) of
        None \<Rightarrow> False
      | Some rs \<Rightarrow>
          (let len = sum_list (map length rs)
           in len \<le> length tr \<and> interleaved rs (take len tr)
              \<and> is_trace k g ss (drop len tr)))"

subsection \<open>Globs\<close>

text \<open>
  A file path is the list of its components. The globs of the script are matched by the
  glob library behind \<^verbatim>\<open>gulp.src\<close> and \<^verbatim>\<open>del\<close>, with its default options. The matcher
  below covers the part of the pattern language that the globs of the scripts task and
  of the clean task use: literal characters, \<^verbatim>\<open>*\<close> inside a component (any run of
  characters), and a component \<^verbatim>\<open>**\<close> (any number of directories). By default a
  component that begins with a dot is matched only by a pattern component that begins
  with a dot, and \<^verbatim>\<open>**\<close> does not descend into such a directory. A pattern with any
  other special character is outside the matcher, which then gives \<open>None\<close>.
\<close>

type_synonym path = "string list"

fun split_slash :: "string \<Rightarrow> string list" where
  "split_slash [] = [ [] ]"
| "split_slash (c # cs) =
     (if c = CHR ''/'' then [] # split_slash cs
      else (case split_slash cs of [] \<Rightarrow> [ [c] ] | s # ss \<Rightarrow> (c # s) # ss))"

definition dotfile :: "string \<Rightarrow> bool" where
  "dotfile s = (case s of [] \<Rightarrow> False | c # _ \<Rightarrow> c = CHR ''.'')"

fun seg_match :: "string \<Rightarrow> string \<Rightarrow> bool" where
  "seg_match [] s = (s = [])"
| "seg_match (p # ps) [] = (p = CHR ''*'' \<and> seg_match ps [])"
| "seg_match (p # ps) (c # cs) =
     (if p = CHR ''*'' then seg_match ps (c # cs) \<or> seg_match (p # ps) cs
      else p = c \<and> seg_match ps cs)"

definition segment_match :: "string \<Rightarrow> string \<Rightarrow> bool" where
  "segment_match pat s = ((if dotfile s then dotfile pat else True) \<and> seg_match pat s)"

fun path_match :: "string list \<Rightarrow> path \<Rightarrow> bool" where
  "path_match [] fs = (fs = [])"
| "path_match (g # gs) [] = (g = ''**'' \<and> path_match gs [])"
| "path_match (g # gs) (f # fs) =
     (if g = ''**'' then path_match gs (f # fs) \<or> (\<not> dotfile f \<and> path_match (g # gs) fs)
      else segment_match g f \<and> path_match gs fs)"

definition glob_supported :: "string \<Rightarrow> bool" where
  "glob_supported g = list_all (\<lambda>c. c \<notin> set ''?[]{}()|+@!#'' \<and> c \<noteq> CHR 0x5C) g"

definition glob_match :: "string \<Rightarrow> path \<Rightarrow> bool option" where
  "glob_match g p = (if glob_supported g then Some (path_match (split_slash g) p) else None)"

text \<open>
  \<^verbatim>\<open>gulp.src\<close> with a list of globs: a glob that begins with \<^verbatim>\<open>!\<close> is negative, any
  other is positive. A list with no positive glob is refused with the error
  \<^verbatim>\<open>Missing positive glob\<close>. Otherwise a path is selected when some positive glob
  matches it and no negative glob of the list does, wherever the negative glob stands.
  \<open>Unsupported_glob\<close> is the answer for a pattern outside the matcher.
\<close>

definition negative :: "string \<Rightarrow> bool" where
  "negative g = (case g of [] \<Rightarrow> False | c # _ \<Rightarrow> c = CHR ''!'')"

datatype src_error = Missing_positive_glob | Unsupported_glob

definition gulp_src :: "string list \<Rightarrow> path \<Rightarrow> src_error + bool" where
  "gulp_src globs p =
     (let positives = filter (\<lambda>g. \<not> negative g) globs;
          negatives = map tl (filter negative globs)
      in if positives = [] then Inl Missing_positive_glob
         else (case those (map (\<lambda>g. glob_match g p) positives) of
                 None \<Rightarrow> Inl Unsupported_glob
               | Some ps \<Rightarrow>
                   (case those (map (\<lambda>g. glob_match g p) negatives) of
                      None \<Rightarrow> Inl Unsupported_glob
                    | Some ns \<Rightarrow> Inr (list_ex (\<lambda>b. b) ps \<and> \<not> list_ex (\<lambda>b. b) ns))))"

text \<open>
  \<^verbatim>\<open>del\<close> with a list of globs: it removes every path that a glob matches, and with a
  directory everything beneath it. The filesystem maps the paths that exist to their
  content.
\<close>

definition deleted :: "string list \<Rightarrow> path \<Rightarrow> bool" where
  "deleted pats p =
     list_ex (\<lambda>q. q \<noteq> [] \<and> list_ex (\<lambda>g. glob_match g q = Some True) pats) (prefixes p)"

definition del :: "string list \<Rightarrow> (path \<Rightarrow> 'a option) \<Rightarrow> (path \<Rightarrow> 'a option) option" where
  "del pats fs =
     (if list_all glob_supported pats
      then Some (\<lambda>p. if deleted pats p then None else fs p)
      else None)"

text \<open>
  The specification's wording of what the scripts task selects: the files under
  \<^verbatim>\<open>src/scripts\<close> whose names end in \<^verbatim>\<open>.js\<close> but not in \<^verbatim>\<open>.module.js\<close>.
\<close>

definition scripts_selection_spec :: "path \<Rightarrow> bool" where
  "scripts_selection_spec p =
     (take 2 p = [''src'', ''scripts''] \<and> drop 2 p \<noteq> []
      \<and> suffix ''.js'' (last p) \<and> \<not> suffix ''.module.js'' (last p))"

section \<open>Verified properties\<close>

subsection \<open>Auxiliary facts\<close>

lemma paths_load:
  "paths (load e) =
     \<lparr> views = \<lparr> src = ''src/views/**/*'', dest = ''build'' \<rparr>,
       media = \<lparr> src = ''src/media/**/*.+(gif|jpg|jpeg|png|svg)'',
                 dest = ''build/static/media'' \<rparr>,
       styles = \<lparr> src = ''src/styles/**/*.+(css|scss)'', dest = ''build/static/styles'' \<rparr>,
       scripts = \<lparr> src = [''src/scripts/**/*.js'', ''!src/scripts/**/*.module.js''],
                   dest = ''build/static/scripts'' \<rparr> \<rparr>"
  by (simp add: load_def Let_def mk_paths_def)

lemma dirs_load: "dirs (load e) = \<lparr> entry = ''src'', output' = ''build'' \<rparr>"
  by (simp add: load_def Let_def)

lemma isProd_load: "isProd (load e) = (getenv e ''NODE_ENV'' = Some ''production'')"
  by (simp add: load_def Let_def)

lemma pluginConfig_load:
  "pluginConfig (load e) =
     mk_pluginConfig e (getenv e ''NODE_ENV'' = Some ''production'')
       \<lparr> entry = ''src'', output' = ''build'' \<rparr>"
  by (simp add: load_def Let_def)

lemma script_foldl: "script (foldl exec p evs) = script p"
proof (induction evs arbitrary: p)
  case Nil
  show ?case by simp
next
  case (Cons ev evs)
  have "script (exec p ev) = script p" by (cases ev) simp_all
  with Cons show ?case by simp
qed

lemma ran_foldl:
  "script p = g \<Longrightarrow> list_all (\<lambda>r. snd r = gulp_tasks g (fst r)) (ran p)
   \<Longrightarrow> list_all (\<lambda>r. snd r = gulp_tasks g (fst r)) (ran (foldl exec p evs))"
proof (induction evs arbitrary: p)
  case Nil
  then show ?case by simp
next
  case (Cons ev evs)
  have "script (exec p ev) = g" using Cons.prems(1) by (cases ev) simp_all
  moreover have "list_all (\<lambda>r. snd r = gulp_tasks g (fst r)) (ran (exec p ev))"
    using Cons.prems by (cases ev) simp_all
  ultimately show ?case using Cons.IH by simp
qed

subsection \<open>The environment flag\<close>

text \<open>
  C4: the production flag is computed when the script is loaded, from the value that
  \<^verbatim>\<open>NODE_ENV\<close> has then, and it is true exactly when that value is the string
  \<^verbatim>\<open>production\<close>. Whatever runs afterwards (tasks, assignments to the environment), the
  process keeps that flag, and every task that runs is the task of the constants loaded at
  startup, so each of its branches uses the stored flag.
\<close>

theorem isProd_read_once:
  "isProd (load e) = (getenv e ''NODE_ENV'' = Some ''production'')
   \<and> isProd (script (foldl exec (startup e) evs))
       = (getenv e ''NODE_ENV'' = Some ''production'')
   \<and> list_all (\<lambda>r. snd r = gulp_tasks (load e) (fst r))
        (ran (foldl exec (startup e) evs))"
proof -
  have b: "script (foldl exec (startup e) evs) = load e"
    by (simp add: script_foldl startup_def)
  have c: "list_all (\<lambda>r. snd r = gulp_tasks (load e) (fst r))
             (ran (foldl exec (startup e) evs))"
    by (rule ran_foldl) (simp_all add: startup_def)
  show ?thesis using b c by (simp add: isProd_load)
qed

theorem isProd_read_once_witness:
  "isProd (script (foldl exec (startup [(''NODE_ENV'', ''production'')])
      [RunTask ''styles'', SetEnv ''NODE_ENV'' (Some ''development''), RunTask ''media'']))"
  using isProd_read_once [of "[(''NODE_ENV'', ''production'')]"
      "[RunTask ''styles'', SetEnv ''NODE_ENV'' (Some ''development''), RunTask ''media'']"]
  by (simp add: getenv_def)

subsection \<open>Filesystem layout\<close>

text \<open>
  C5: each asset task reads the glob under its own subdirectory of \<^verbatim>\<open>src\<close>
  (\<^verbatim>\<open>src/views\<close>, \<^verbatim>\<open>src/media\<close>, \<^verbatim>\<open>src/styles\<close>, \<^verbatim>\<open>src/scripts\<close>) and has exactly one
  output stage, which writes to \<^verbatim>\<open>build\<close> for the views and to
  \<^verbatim>\<open>build/static/media\<close>, \<^verbatim>\<open>build/static/styles\<close>, \<^verbatim>\<open>build/static/scripts\<close> for the others.
\<close>

theorem layout:
  "gulp_tasks (load e) ''views'' =
     Some \<lparr> deps = [], body = [Pipeline [''src/views/**/*''] (views_stages (load e))] \<rparr>
   \<and> dests (views_stages (load e)) = [''build'']
   \<and> gulp_tasks (load e) ''media'' =
     Some \<lparr> deps = [],
            body = [Pipeline [''src/media/**/*.+(gif|jpg|jpeg|png|svg)'']
                      (media_stages (load e))] \<rparr>
   \<and> dests (media_stages (load e)) = [''build/static/media'']
   \<and> gulp_tasks (load e) ''styles'' =
     Some \<lparr> deps = [],
            body = [Pipeline [''src/styles/**/*.+(css|scss)''] (styles_stages (load e))] \<rparr>
   \<and> dests (styles_stages (load e)) = [''build/static/styles'']
   \<and> gulp_tasks (load e) ''scripts'' =
     Some \<lparr> deps = [],
            body = [Pipeline [''src/scripts/**/*.js'', ''!src/scripts/**/*.module.js'']
                      (scripts_stages (load e))] \<rparr>
   \<and> dests (scripts_stages (load e)) = [''build/static/scripts'']"
  by (simp add: gulp_tasks_def paths_load dests_def views_stages_def media_stages_def
      styles_stages_def scripts_stages_def)

subsection \<open>The server port\<close>

text \<open>
  C6: the serve task starts the server on the value of \<^verbatim>\<open>PORT\<close> when that variable is set
  and not empty, and on 3000 otherwise; and two environments that agree on \<^verbatim>\<open>NODE_ENV\<close>
  and on \<^verbatim>\<open>PORT\<close> load the same configuration, whatever else they hold.
\<close>

theorem port_override:
  "gulp_tasks (load e) ''serve'' =
     Some \<lparr> deps = [],
            body = [BrowserSyncInit
              \<lparr> port = (case getenv e ''PORT'' of None \<Rightarrow> Num 3000
                         | Some s \<Rightarrow> if s = [] then Num 3000 else Str s),
                server = \<lparr> baseDir = ''build'' \<rparr> \<rparr>] \<rparr>
   \<and> (getenv e ''NODE_ENV'' = getenv e' ''NODE_ENV''
        \<and> getenv e ''PORT'' = getenv e' ''PORT''
        \<longrightarrow> load e = load e')"
  by (simp add: gulp_tasks_def pluginConfig_load mk_pluginConfig_def env_or_def load_def
      Let_def)

theorem port_override_witness:
  "gulp_tasks (load [(''HOME'', ''/root''), (''PORT'', ''8080'')]) ''serve'' =
     Some \<lparr> deps = [],
            body = [BrowserSyncInit
              \<lparr> port = Str ''8080'', server = \<lparr> baseDir = ''build'' \<rparr> \<rparr>] \<rparr>
   \<and> load [(''HOME'', ''/root''), (''PORT'', ''8080'')] = load [(''PORT'', ''8080'')]"
proof -
  note h = port_override [of "[(''HOME'', ''/root''), (''PORT'', ''8080'')]"
      "[(''PORT'', ''8080'')]"]
  have same: "getenv [(''HOME'', ''/root''), (''PORT'', ''8080'')] ''NODE_ENV''
                = getenv [(''PORT'', ''8080'')] ''NODE_ENV''
              \<and> getenv [(''HOME'', ''/root''), (''PORT'', ''8080'')] ''PORT''
                = getenv [(''PORT'', ''8080'')] ''PORT''"
    by (simp add: getenv_def)
  have a: "load [(''HOME'', ''/root''), (''PORT'', ''8080'')] = load [(''PORT'', ''8080'')]"
    using h same by blast
  have b: "gulp_tasks (load [(''HOME'', ''/root''), (''PORT'', ''8080'')]) ''serve'' =
     Some \<lparr> deps = [],
            body = [BrowserSyncInit
              \<lparr> port = Str ''8080'', server = \<lparr> baseDir = ''build'' \<rparr> \<rparr>] \<rparr>"
    using conjunct1 [OF h] by (simp add: getenv_def)
  show ?thesis by (rule conjI [OF b a])
qed

subsection \<open>The configured path strings\<close>

text \<open>
  C7, as stated, fails: the destination of the media task is a configured path string and
  it contains a slash.
\<close>

theorem paths_slash_free_counterexample:
  "dest (media (paths (load []))) \<in> set (configured_paths (load []))
   \<and> \<not> slash_free (dest (media (paths (load []))))"
  by (simp add: configured_paths_def paths_load slash_free_def)

text \<open>
  C7, amended: every configured path string is non-empty and has neither a leading nor a
  trailing slash (the rule the script's comments give); the source directory, the output
  directory and the destination of the views task are non-empty and contain no slash at
  all.
\<close>

theorem paths_no_outer_slash:
  "list_all no_outer_slash (configured_paths (load e))
   \<and> slash_free (entry (dirs (load e))) \<and> slash_free (output' (dirs (load e)))
   \<and> slash_free (dest (views (paths (load e))))"
  by (simp add: configured_paths_def paths_load dirs_load slash_free_def no_outer_slash_def)

theorem paths_no_outer_slash_witness: "no_outer_slash ''src/scripts/**/*.js''"
  using paths_no_outer_slash [of "[]"]
  by (simp add: configured_paths_def paths_load dirs_load)

subsection \<open>Stages chosen by the flag\<close>

text \<open>
  C1, as stated for every asset-processing task, fails: in development the scripts task is
  an asset-processing task that applies neither the browserSync stream stage nor the
  changed-file filter.
\<close>

theorem stages_by_flag_counterexample:
  "\<not> isProd (load []) \<and> ''scripts'' \<in> set asset_tasks
   \<and> BrowserSyncStream \<notin> set (task_stages (load []) ''scripts'')
   \<and> Changed (dest (scripts (paths (load [])))) \<notin> set (task_stages (load []) ''scripts'')"
  by (simp add: isProd_load getenv_def asset_tasks_def task_stages_def gulp_tasks_def
      scripts_stages_def)

text \<open>
  C1, amended: the cleanCSS stage of the styles task and the imagemin stage of the media
  task are applied exactly when the flag is true; the changed-file filter of the views,
  media and styles tasks and the browserSync stream stage of the media and styles tasks
  are applied exactly when the flag is false; each stands at a fixed place of its task and
  a no-op stage stands there in the other mode. The views task has no browserSync stream
  stage, and the scripts task has neither that stage nor a changed-file filter, in either
  mode.
\<close>

theorem stages_by_flag:
  "task_stages g ''views'' =
     (if isProd g
      then [Plumber (plumber (pluginConfig g)), Noop, Dest (dest (views (paths g)))]
      else [Plumber (plumber (pluginConfig g)), Changed (dest (views (paths g))),
            Dest (dest (views (paths g)))])
   \<and> task_stages g ''media'' =
     (if isProd g
      then [Plumber (plumber (pluginConfig g)), Noop, Imagemin (imagemin (pluginConfig g)),
            Dest (dest (media (paths g))), Noop]
      else [Plumber (plumber (pluginConfig g)), Changed (dest (media (paths g))), Noop,
            Dest (dest (media (paths g))), BrowserSyncStream])
   \<and> task_stages g ''styles'' =
     (if isProd g
      then [Plumber (plumber (pluginConfig g)), Noop, SourcemapsInit,
            Sass (sass (pluginConfig g)), Autoprefixer (autoprefixer (pluginConfig g)),
            CleanCSS (cleanCSS (pluginConfig g)),
            SourcemapsWrite (sourcemaps (pluginConfig g)),
            Dest (dest (styles (paths g))), Noop]
      else [Plumber (plumber (pluginConfig g)), Changed (dest (styles (paths g))),
            SourcemapsInit, Sass (sass (pluginConfig g)),
            Autoprefixer (autoprefixer (pluginConfig g)), Noop,
            SourcemapsWrite (sourcemaps (pluginConfig g)),
            Dest (dest (styles (paths g))), BrowserSyncStream])
   \<and> task_stages g ''scripts'' =
       [Plumber (plumber (pluginConfig g)), Named, Webpack (webpack (pluginConfig g)),
        Dest (dest (scripts (paths g)))]
   \<and> (CleanCSS c \<in> set (task_stages g ''styles''))
       = (isProd g \<and> c = cleanCSS (pluginConfig g))
   \<and> (Imagemin i \<in> set (task_stages g ''media''))
       = (isProd g \<and> i = imagemin (pluginConfig g))
   \<and> (Changed d \<in> set (task_stages g ''views''))
       = (\<not> isProd g \<and> d = dest (views (paths g)))
   \<and> (Changed d \<in> set (task_stages g ''media''))
       = (\<not> isProd g \<and> d = dest (media (paths g)))
   \<and> (Changed d \<in> set (task_stages g ''styles''))
       = (\<not> isProd g \<and> d = dest (styles (paths g)))
   \<and> (BrowserSyncStream \<in> set (task_stages g ''media'')) = (\<not> isProd g)
   \<and> (BrowserSyncStream \<in> set (task_stages g ''styles'')) = (\<not> isProd g)
   \<and> BrowserSyncStream \<notin> set (task_stages g ''views'')
   \<and> BrowserSyncStream \<notin> set (task_stages g ''scripts'')
   \<and> Changed d \<notin> set (task_stages g ''scripts'')"
  by (simp add: task_stages_def gulp_tasks_def views_stages_def media_stages_def
      styles_stages_def scripts_stages_def)

theorem stages_by_flag_witness:
  "Imagemin (imagemin (pluginConfig (load [(''NODE_ENV'', ''production'')])))
     \<in> set (task_stages (load [(''NODE_ENV'', ''production'')]) ''media'')
   \<and> BrowserSyncStream \<in> set (task_stages (load []) ''styles'')"
  using stages_by_flag [of "load [(''NODE_ENV'', ''production'')]"]
    stages_by_flag [of "load []"]
  by (simp add: isProd_load getenv_def)

subsection \<open>Error reporting\<close>

text \<open>
  C3: each of the four asset tasks has exactly one error-reporting stage, and all four
  install the same handler, the one of the plugin configuration. Called with an error,
  that handler reports on the console, shows a notification with the title
  \<^verbatim>\<open>Compile Error\<close> and the error's message, and then emits \<^verbatim>\<open>end\<close> (the notifier does,
  and the handler does again), and does nothing else: there is no retry and no other
  recovery.
\<close>

theorem error_callback:
  "plumbers (task_stages g ''views'') = [plumber (pluginConfig g)]
   \<and> plumbers (task_stages g ''media'') = [plumber (pluginConfig g)]
   \<and> plumbers (task_stages g ''styles'') = [plumber (pluginConfig g)]
   \<and> plumbers (task_stages g ''scripts'') = [plumber (pluginConfig g)]
   \<and> errorHandler (plumber (pluginConfig (load e))) err =
       [ ConsoleLog [Time, Text '' ''],
         ConsoleLog [Text ''gulp-notify:'', Text '' '', Text ''[Compile Error]'', Text '' '',
                     Text (error_message err)],
         Notify \<lparr> title = ''Compile Error'', message = error_message err,
                  sound = ''Funk'' \<rparr>,
         Emit ''end'',
         Emit ''end'' ]"
  by (simp add: plumbers_def task_stages_def gulp_tasks_def views_stages_def
      media_stages_def styles_stages_def scripts_stages_def pluginConfig_load
      mk_pluginConfig_def plumber_errorHandler_def notify_onError_def error_message_tag_def
      Let_def)

subsection \<open>Facts about runs\<close>

lemma pick_union:
  "rs' \<in> set (pick x rs) \<Longrightarrow> insert x (\<Union> (set ` set rs')) = \<Union> (set ` set rs)"
proof (induction rs arbitrary: rs')
  case Nil
  then show ?case by simp
next
  case (Cons r rs)
  from Cons.prems consider
    (here) ys where "r = x # ys" "rs' = ys # rs"
    | (there) rs'' where "rs'' \<in> set (pick x rs)" "rs' = r # rs''"
    by (auto split: list.splits if_splits)
  then show ?case
  proof cases
    case here
    then show ?thesis by auto
  next
    case there
    from Cons.IH [OF there(1)] have "insert x (\<Union> (set ` set rs'')) = \<Union> (set ` set rs)" .
    then show ?thesis using there(2) by auto
  qed
qed

lemma interleaved_set: "interleaved rs p \<Longrightarrow> set p = \<Union> (set ` set rs)"
proof (induction p arbitrary: rs)
  case Nil
  then show ?case by (auto simp: list_all_iff)
next
  case (Cons x xs)
  from Cons.prems obtain rs' where a: "rs' \<in> set (pick x rs)" and b: "interleaved rs' xs"
    by (auto simp: list_ex_iff)
  from Cons.IH [OF b] have "set xs = \<Union> (set ` set rs')" .
  with pick_union [OF a] show ?case by auto
qed

lemma run_clean: "gulp_run (Suc k) g ''clean'' = Some (task_run ''clean'' [Del [output' (dirs g)]])"
  by (simp add: gulp_tasks_def)

lemma run_serve: "gulp_run (Suc k) g ''serve'' =
    Some (task_run ''serve'' [BrowserSyncInit (browserSync (pluginConfig g))])"
  by (simp add: gulp_tasks_def)

lemma run_watch: "gulp_run (Suc k) g ''watch'' =
    Some (task_run ''watch''
      (watch_actions g))"
  by (simp add: gulp_tasks_def)

lemma run_compile:
  "those (map (gulp_run (Suc k) g) [''views'', ''media'', ''styles'', ''scripts''])
     = Some (compile_runs g)"
  by (simp add: gulp_tasks_def compile_runs_def)

lemma take_eq_append: "take (length r) tr = r \<Longrightarrow> tr = r @ drop (length r) tr"
  by (metis append_take_drop_id)

lemma is_trace_Task:
  "gulp_run k g n = Some r \<Longrightarrow> is_trace k g (Task n # ss) tr \<Longrightarrow>
   \<exists>tr'. tr = r @ tr' \<and> is_trace k g ss tr'"
  by (auto dest: take_eq_append)

lemma is_trace_Parallel:
  "those (map (gulp_run k g) ns) = Some rs \<Longrightarrow> is_trace k g (Parallel ns # ss) tr \<Longrightarrow>
   \<exists>p tr'. tr = p @ tr' \<and> interleaved rs p \<and> is_trace k g ss tr'"
  by (auto simp: Let_def) (metis append_take_drop_id)

lemma default_trace_shape:
  assumes "is_trace (Suc k) g (default_steps g) tr"
  shows "\<exists>p. tr = task_run ''clean'' [Del [output' (dirs g)]] @ p
            @ (if isProd g then []
               else task_run ''serve'' [BrowserSyncInit (browserSync (pluginConfig g))]
                  @ task_run ''watch''
                      (watch_actions g))
          \<and> interleaved (compile_runs g) p"
proof (cases "isProd g")
  case True
  with assms have t: "is_trace (Suc k) g
      [Task ''clean'', Parallel [''views'', ''media'', ''styles'', ''scripts'']] tr"
    by (simp add: default_steps_def)
  from is_trace_Task [OF run_clean t] obtain t1 where
    1: "tr = task_run ''clean'' [Del [output' (dirs g)]] @ t1"
    and 2: "is_trace (Suc k) g [Parallel [''views'', ''media'', ''styles'', ''scripts'']] t1"
    by blast
  from is_trace_Parallel [OF run_compile 2] obtain p t2 where
    3: "t1 = p @ t2" and 4: "interleaved (compile_runs g) p" and 5: "is_trace (Suc k) g [] t2"
    by blast
  from 5 have "t2 = []" by simp
  with 1 3 4 True show ?thesis by simp
next
  case False
  with assms have t: "is_trace (Suc k) g
      [Task ''clean'', Parallel [''views'', ''media'', ''styles'', ''scripts''],
       Task ''serve'', Task ''watch''] tr"
    by (simp add: default_steps_def)
  from is_trace_Task [OF run_clean t] obtain t1 where
    1: "tr = task_run ''clean'' [Del [output' (dirs g)]] @ t1"
    and 2: "is_trace (Suc k) g [Parallel [''views'', ''media'', ''styles'', ''scripts''],
              Task ''serve'', Task ''watch''] t1"
    by blast
  from is_trace_Parallel [OF run_compile 2] obtain p t2 where
    3: "t1 = p @ t2" and 4: "interleaved (compile_runs g) p"
    and 5: "is_trace (Suc k) g [Task ''serve'', Task ''watch''] t2"
    by blast
  from is_trace_Task [OF run_serve 5] obtain t3 where
    6: "t2 = task_run ''serve'' [BrowserSyncInit (browserSync (pluginConfig g))] @ t3"
    and 7: "is_trace (Suc k) g [Task ''watch''] t3"
    by blast
  from is_trace_Task [OF run_watch 7] obtain t4 where
    8: "t3 = task_run ''watch''
                      (watch_actions g) @ t4"
    and 9: "is_trace (Suc k) g [] t4"
    by blast
  from 9 have "t4 = []" by simp
  with 1 3 4 6 8 False show ?thesis by simp
qed

lemma before_append: "a \<in> set xs \<Longrightarrow> b \<notin> set xs \<Longrightarrow> before a b (xs @ ys)"
proof -
  assume a: "a \<in> set xs" and b: "b \<notin> set xs"
  have "takeWhile (\<lambda>e. e \<noteq> b) (xs @ ys) = xs @ takeWhile (\<lambda>e. e \<noteq> b) ys"
    using b by (intro takeWhile_append2) auto
  with a show ?thesis by (simp add: before_def)
qed

lemma compile_events:
  "\<Union> (set ` set (compile_runs g)) =
     { Start ''views'', Do ''views'' (Pipeline [src (views (paths g))] (views_stages g)), Finish ''views'',
       Start ''media'', Do ''media'' (Pipeline [src (media (paths g))] (media_stages g)), Finish ''media'',
       Start ''styles'', Do ''styles'' (Pipeline [src (styles (paths g))] (styles_stages g)), Finish ''styles'',
       Start ''scripts'', Do ''scripts'' (Pipeline (src (scripts (paths g))) (scripts_stages g)), Finish ''scripts'' }"
  by (auto simp: compile_runs_def task_run_def)

lemma sequential_interleaved: "interleaved (compile_runs g) (concat (compile_runs g))"
  by (simp add: compile_runs_def task_run_def)

lemma sequential_trace:
  "is_trace (Suc k) g (default_steps g)
     (task_run ''clean'' [Del [output' (dirs g)]] @ concat (compile_runs g)
       @ (if isProd g then []
          else task_run ''serve'' [BrowserSyncInit (browserSync (pluginConfig g))]
             @ task_run ''watch'' (watch_actions g)))"
proof -
  have len: "sum_list (map length (compile_runs g)) = length (concat (compile_runs g))"
    by (simp add: length_concat)
  show ?thesis
    using sequential_interleaved [of g]
    by (simp only: default_steps_def Let_def is_trace.simps run_clean run_serve run_watch run_compile
        option.case len split: if_split) simp
qed


lemma Finish_in_task_run: "Finish n \<in> set (task_run n acts)"
  by (simp add: task_run_def)

lemma Start_notin_task_run: "m \<noteq> n \<Longrightarrow> Start m \<notin> set (task_run n acts)"
  by (auto simp: task_run_def)

lemma task_of_task_run: "e \<in> set (task_run n acts) \<Longrightarrow> task_of e = n"
  by (auto simp: task_run_def)


subsection \<open>Reload after build\<close>

text \<open>
  C8: a run of \<^verbatim>\<open>views:watch\<close> (of \<^verbatim>\<open>scripts:watch\<close>) exists as soon as the bound allows
  a dependency chain of two tasks, and it is the run of \<^verbatim>\<open>views\<close> (of \<^verbatim>\<open>scripts\<close>) to its
  finish followed by the reload: the prerequisite has finished before
  \<^verbatim>\<open>browserSync.reload\<close> is called.
\<close>

theorem reload_after_build:
  "gulp_run (Suc (Suc k)) g ''views:watch'' =
     Some [ Start ''views'',
            Do ''views'' (Pipeline [src (views (paths g))] (views_stages g)),
            Finish ''views'', Start ''views:watch'', Do ''views:watch'' BrowserSyncReload,
            Do ''views:watch'' Done, Finish ''views:watch'' ]
   \<and> gulp_run (Suc (Suc k)) g ''scripts:watch'' =
     Some [ Start ''scripts'',
            Do ''scripts'' (Pipeline (src (scripts (paths g))) (scripts_stages g)),
            Finish ''scripts'', Start ''scripts:watch'',
            Do ''scripts:watch'' BrowserSyncReload,
            Do ''scripts:watch'' Done, Finish ''scripts:watch'' ]
   \<and> (\<forall>tr. gulp_run (Suc (Suc k)) g ''views:watch'' = Some tr \<longrightarrow>
         before (Finish ''views'') (Do ''views:watch'' BrowserSyncReload) tr)
   \<and> (\<forall>tr. gulp_run (Suc (Suc k)) g ''scripts:watch'' = Some tr \<longrightarrow>
         before (Finish ''scripts'') (Do ''scripts:watch'' BrowserSyncReload) tr)"
proof -
  have v: "gulp_run (Suc (Suc k)) g ''views:watch'' =
     Some [ Start ''views'',
            Do ''views'' (Pipeline [src (views (paths g))] (views_stages g)),
            Finish ''views'', Start ''views:watch'', Do ''views:watch'' BrowserSyncReload,
            Do ''views:watch'' Done, Finish ''views:watch'' ]"
    by (simp add: gulp_tasks_def task_run_def)
  have s: "gulp_run (Suc (Suc k)) g ''scripts:watch'' =
     Some [ Start ''scripts'',
            Do ''scripts'' (Pipeline (src (scripts (paths g))) (scripts_stages g)),
            Finish ''scripts'', Start ''scripts:watch'',
            Do ''scripts:watch'' BrowserSyncReload,
            Do ''scripts:watch'' Done, Finish ''scripts:watch'' ]"
    by (simp add: gulp_tasks_def task_run_def)
  show ?thesis
    unfolding v s by (simp add: before_def)
qed

theorem reload_after_build_witness:
  "before (Finish ''scripts'') (Do ''scripts:watch'' BrowserSyncReload)
     [ Start ''scripts'',
       Do ''scripts'' (Pipeline (src (scripts (paths (load [])))) (scripts_stages (load []))),
       Finish ''scripts'', Start ''scripts:watch'', Do ''scripts:watch'' BrowserSyncReload,
       Do ''scripts:watch'' Done, Finish ''scripts:watch'' ]"
  using reload_after_build [of 0 "load []"] by blast

subsection \<open>The default task\<close>

text \<open>
  C2: the default task calls \<^verbatim>\<open>runSequence\<close> once, with a fixed list of steps: clean,
  then the four compile tasks together, and in development also serve and then watch. A
  run of that list exists, and every run of it is the run of clean to its finish, then
  an interleaving of the runs of the four compile tasks, then in development the run of
  serve followed by the run of watch. So clean has finished before any compile task
  starts; in development every compile task has finished before serve starts and serve
  has finished before watch starts; in production no event of serve or watch occurs.
\<close>

theorem default_sequence:
  "gulp_tasks g ''default'' = Some \<lparr> deps = [], body = [RunSequence (default_steps g)] \<rparr>
   \<and> default_steps g =
       [Task ''clean'', Parallel [''views'', ''media'', ''styles'', ''scripts'']]
       @ (if isProd g then [] else [Task ''serve'', Task ''watch''])
   \<and> is_trace (Suc k) g (default_steps g)
       (task_run ''clean'' [Del [output' (dirs g)]] @ concat (compile_runs g)
         @ (if isProd g then []
            else task_run ''serve'' [BrowserSyncInit (browserSync (pluginConfig g))]
               @ task_run ''watch'' (watch_actions g)))
   \<and> (is_trace (Suc k) g (default_steps g) tr \<longrightarrow>
        (\<exists>p. tr = task_run ''clean'' [Del [output' (dirs g)]] @ p
                 @ (if isProd g then []
                    else task_run ''serve'' [BrowserSyncInit (browserSync (pluginConfig g))]
                       @ task_run ''watch'' (watch_actions g))
             \<and> interleaved (compile_runs g) p)
        \<and> list_all (\<lambda>n. before (Finish ''clean'') (Start n) tr) asset_tasks
        \<and> (if isProd g
            then list_all (\<lambda>e. task_of e \<noteq> ''serve'' \<and> task_of e \<noteq> ''watch'') tr
            else list_all (\<lambda>n. before (Finish n) (Start ''serve'') tr) asset_tasks
               \<and> before (Finish ''serve'') (Start ''watch'') tr))"
proof -
  have d: "gulp_tasks g ''default'' = Some \<lparr> deps = [], body = [RunSequence (default_steps g)] \<rparr>"
    by (simp add: gulp_tasks_def)
  have s: "default_steps g =
       [Task ''clean'', Parallel [''views'', ''media'', ''styles'', ''scripts'']]
       @ (if isProd g then [] else [Task ''serve'', Task ''watch''])"
    by (simp add: default_steps_def)
  have order: "list_all (\<lambda>n. before (Finish ''clean'') (Start n) tr) asset_tasks
        \<and> (if isProd g
            then list_all (\<lambda>e. task_of e \<noteq> ''serve'' \<and> task_of e \<noteq> ''watch'') tr
            else list_all (\<lambda>n. before (Finish n) (Start ''serve'') tr) asset_tasks
               \<and> before (Finish ''serve'') (Start ''watch'') tr)"
    if sh: "tr = task_run ''clean'' [Del [output' (dirs g)]] @ p
                 @ (if isProd g then []
                    else task_run ''serve'' [BrowserSyncInit (browserSync (pluginConfig g))]
                       @ task_run ''watch'' (watch_actions g))"
      and il: "interleaved (compile_runs g) p" for p
  proof -
    have sp: "set p = \<Union> (set ` set (compile_runs g))"
      using il by (rule interleaved_set)
    have c1: "list_all (\<lambda>n. before (Finish ''clean'') (Start n) tr) asset_tasks"
      unfolding sh asset_tasks_def
      by (simp add: before_append Finish_in_task_run Start_notin_task_run)
    show ?thesis
    proof (cases "isProd g")
      case True
      have "list_all (\<lambda>e. task_of e \<noteq> ''serve'' \<and> task_of e \<noteq> ''watch'') tr"
        unfolding sh using True
        by (auto simp: list_all_iff sp compile_events dest: task_of_task_run)
      with c1 True show ?thesis by simp
    next
      case False
      let ?c = "task_run ''clean'' [Del [output' (dirs g)]]"
      let ?sv = "task_run ''serve'' [BrowserSyncInit (browserSync (pluginConfig g))]"
      let ?w = "task_run ''watch'' (watch_actions g)"
      have tr1: "tr = (?c @ p) @ (?sv @ ?w)" using sh False by simp
      have tr2: "tr = (?c @ p @ ?sv) @ ?w" using sh False by simp
      have a: "list_all (\<lambda>n. before (Finish n) (Start ''serve'') tr) asset_tasks"
        unfolding asset_tasks_def
        by (simp add: tr1 before_append sp compile_events Start_notin_task_run
            del: append_assoc)
      have b: "before (Finish ''serve'') (Start ''watch'') tr"
        by (subst tr2, rule before_append)
           (simp_all add: sp compile_events Finish_in_task_run Start_notin_task_run)
      from c1 a b False show ?thesis by simp
    qed
  qed
  have tr: "is_trace (Suc k) g (default_steps g) tr \<longrightarrow>
        (\<exists>p. tr = task_run ''clean'' [Del [output' (dirs g)]] @ p
                 @ (if isProd g then []
                    else task_run ''serve'' [BrowserSyncInit (browserSync (pluginConfig g))]
                       @ task_run ''watch'' (watch_actions g))
             \<and> interleaved (compile_runs g) p)
        \<and> list_all (\<lambda>n. before (Finish ''clean'') (Start n) tr) asset_tasks
        \<and> (if isProd g
            then list_all (\<lambda>e. task_of e \<noteq> ''serve'' \<and> task_of e \<noteq> ''watch'') tr
            else list_all (\<lambda>n. before (Finish n) (Start ''serve'') tr) asset_tasks
               \<and> before (Finish ''serve'') (Start ''watch'') tr)"
  proof
    assume "is_trace (Suc k) g (default_steps g) tr"
    from default_trace_shape [OF this] obtain p where
      sh: "tr = task_run ''clean'' [Del [output' (dirs g)]] @ p
                 @ (if isProd g then []
                    else task_run ''serve'' [BrowserSyncInit (browserSync (pluginConfig g))]
                       @ task_run ''watch'' (watch_actions g))"
      and il: "interleaved (compile_runs g) p"
      by blast
    from order [OF sh il] sh il
    show "(\<exists>p. tr = task_run ''clean'' [Del [output' (dirs g)]] @ p
                 @ (if isProd g then []
                    else task_run ''serve'' [BrowserSyncInit (browserSync (pluginConfig g))]
                       @ task_run ''watch'' (watch_actions g))
             \<and> interleaved (compile_runs g) p)
        \<and> list_all (\<lambda>n. before (Finish ''clean'') (Start n) tr) asset_tasks
        \<and> (if isProd g
            then list_all (\<lambda>e. task_of e \<noteq> ''serve'' \<and> task_of e \<noteq> ''watch'') tr
            else list_all (\<lambda>n. before (Finish n) (Start ''serve'') tr) asset_tasks
               \<and> before (Finish ''serve'') (Start ''watch'') tr)"
      by blast
  qed
  show ?thesis using d s sequential_trace [of k g] tr by blast
qed

theorem default_sequence_witness:
  "before (Finish ''scripts'') (Start ''serve'')
     (task_run ''clean'' [Del [output' (dirs (load []))]] @ concat (compile_runs (load []))
       @ task_run ''serve'' [BrowserSyncInit (browserSync (pluginConfig (load [])))]
       @ task_run ''watch'' (watch_actions (load [])))"
proof -
  let ?g = "load []"
  let ?tr = "task_run ''clean'' [Del [output' (dirs ?g)]] @ concat (compile_runs ?g)
       @ task_run ''serve'' [BrowserSyncInit (browserSync (pluginConfig ?g))]
       @ task_run ''watch'' (watch_actions ?g)"
  have dev: "\<not> isProd ?g" by (simp add: isProd_load getenv_def)
  note h = default_sequence [of ?g 0 ?tr]
  have t: "is_trace (Suc 0) ?g (default_steps ?g) ?tr"
    using dev
    by (simp add: default_steps_def gulp_tasks_def compile_runs_def task_run_def
        watch_actions_def)
  from h t dev have "list_all (\<lambda>n. before (Finish n) (Start ''serve'') ?tr) asset_tasks"
    by simp
  then show ?thesis by (simp add: asset_tasks_def)
qed


subsection \<open>Facts about globs\<close>

lemma seg_match_literal: "CHR ''*'' \<notin> set pat \<Longrightarrow> seg_match pat s = (s = pat)"
proof (induction pat arbitrary: s)
  case Nil
  show ?case by simp
next
  case (Cons p ps)
  then show ?case by (cases s) auto
qed

lemma seg_match_star: "CHR ''*'' \<notin> set lit \<Longrightarrow> seg_match (CHR ''*'' # lit) s = suffix lit s"
proof (induction s)
  case Nil
  then show ?case by (auto simp: seg_match_literal)
next
  case (Cons c cs)
  then show ?case by (auto simp: seg_match_literal suffix_Cons)
qed

lemma segment_match_literal:
  "CHR ''*'' \<notin> set pat \<Longrightarrow> segment_match pat s = (s = pat)"
  by (auto simp: segment_match_def seg_match_literal)

lemma segment_match_star:
  "CHR ''*'' \<notin> set lit \<Longrightarrow>
   segment_match (CHR ''*'' # lit) s = (\<not> dotfile s \<and> suffix lit s)"
  by (auto simp: segment_match_def seg_match_star dotfile_def)

lemma path_match_globstar:
  "g \<noteq> ''**'' \<Longrightarrow>
   path_match [''**'', g] fs =
     (fs \<noteq> [] \<and> list_all (\<lambda>d. \<not> dotfile d) (butlast fs) \<and> segment_match g (last fs))"
proof (induction fs)
  case Nil
  then show ?case by simp
next
  case (Cons f fs)
  show ?case
  proof (cases "fs = []")
    case True
    then show ?thesis using Cons.prems by auto
  next
    case False
    then show ?thesis using Cons by (cases fs) auto
  qed
qed

lemma path_match_under:
  "CHR ''*'' \<notin> set a \<Longrightarrow> CHR ''*'' \<notin> set b \<Longrightarrow>
   path_match (a # b # gs) p = (take 2 p = [a, b] \<and> path_match gs (drop 2 p))"
proof (cases p)
  case Nil
  assume "CHR ''*'' \<notin> set a"
  then have "a \<noteq> ''**''" by auto
  with Nil show ?thesis by simp
next
  case (Cons f fs)
  assume a: "CHR ''*'' \<notin> set a" and b: "CHR ''*'' \<notin> set b"
  then have n: "a \<noteq> ''**''" "b \<noteq> ''**''" by auto
  show ?thesis
  proof (cases fs)
    case Nil
    with Cons n show ?thesis by simp
  next
    case (Cons f' fs')
    with \<open>p = f # fs\<close> n a b show ?thesis
      by (auto simp: segment_match_literal)
  qed
qed

lemma list_all_butlast_last:
  "xs \<noteq> [] \<Longrightarrow> (list_all P (butlast xs) \<and> P (last xs)) = list_all P xs"
proof -
  assume "xs \<noteq> []"
  then have "xs = butlast xs @ [last xs]" by simp
  then have "list_all P xs = list_all P (butlast xs @ [last xs])" by simp
  then show ?thesis by simp
qed

lemma path_match_under_star:
  assumes "CHR ''*'' \<notin> set a" and "CHR ''*'' \<notin> set b" and "CHR ''*'' \<notin> set lit"
  shows "path_match [a, b, ''**'', CHR ''*'' # lit] p =
     (take 2 p = [a, b] \<and> drop 2 p \<noteq> []
      \<and> list_all (\<lambda>d. \<not> dotfile d) (drop 2 p) \<and> suffix lit (last p))"
proof -
  have ne: "CHR ''*'' # lit \<noteq> ''**''" using assms(3) by auto
  have "path_match [a, b, ''**'', CHR ''*'' # lit] p =
      (take 2 p = [a, b] \<and> path_match [''**'', CHR ''*'' # lit] (drop 2 p))"
    by (rule path_match_under [OF assms(1,2)])
  also have "\<dots> = (take 2 p = [a, b] \<and> drop 2 p \<noteq> []
      \<and> list_all (\<lambda>d. \<not> dotfile d) (butlast (drop 2 p))
      \<and> \<not> dotfile (last (drop 2 p)) \<and> suffix lit (last (drop 2 p)))"
    by (simp add: path_match_globstar [OF ne] segment_match_star [OF assms(3)])
  also have "\<dots> = (take 2 p = [a, b] \<and> drop 2 p \<noteq> []
      \<and> list_all (\<lambda>d. \<not> dotfile d) (drop 2 p) \<and> suffix lit (last p))"
  proof (cases "drop 2 p = []")
    case True
    then show ?thesis by simp
  next
    case False
    then have l: "last (drop 2 p) = last p" by (simp add: last_drop)
    from list_all_butlast_last [OF False, of "\<lambda>d. \<not> dotfile d"] l False
    show ?thesis by auto
  qed
  finally show ?thesis .
qed

lemma match_inc:
  "glob_match ''src/scripts/**/*.js'' p =
     Some (take 2 p = [''src'', ''scripts''] \<and> drop 2 p \<noteq> []
           \<and> list_all (\<lambda>d. \<not> dotfile d) (drop 2 p) \<and> suffix ''.js'' (last p))"
proof -
  have "path_match [''src'', ''scripts'', ''**'', CHR ''*'' # ''.js''] p =
     (take 2 p = [''src'', ''scripts''] \<and> drop 2 p \<noteq> []
      \<and> list_all (\<lambda>d. \<not> dotfile d) (drop 2 p) \<and> suffix ''.js'' (last p))"
    by (rule path_match_under_star) simp_all
  then show ?thesis by (simp add: glob_match_def glob_supported_def)
qed

lemma match_exc:
  "glob_match ''src/scripts/**/*.module.js'' p =
     Some (take 2 p = [''src'', ''scripts''] \<and> drop 2 p \<noteq> []
           \<and> list_all (\<lambda>d. \<not> dotfile d) (drop 2 p) \<and> suffix ''.module.js'' (last p))"
proof -
  have "path_match [''src'', ''scripts'', ''**'', CHR ''*'' # ''.module.js''] p =
     (take 2 p = [''src'', ''scripts''] \<and> drop 2 p \<noteq> []
      \<and> list_all (\<lambda>d. \<not> dotfile d) (drop 2 p) \<and> suffix ''.module.js'' (last p))"
    by (rule path_match_under_star) simp_all
  then show ?thesis by (simp add: glob_match_def glob_supported_def)
qed

lemma match_build: "glob_match ''build'' q = Some (q = [''build''])"
proof -
  have "path_match [''build''] q = (q = [''build''])"
    by (cases q) (auto simp: segment_match_literal)
  then show ?thesis by (simp add: glob_match_def glob_supported_def)
qed

lemma suffix_module_js: "suffix ''.module.js'' s \<Longrightarrow> suffix ''.js'' s"
proof -
  assume "suffix ''.module.js'' s"
  moreover have "suffix ''.js'' ''.module.js''" by (simp add: suffix_def)
  ultimately show ?thesis by (rule suffix_order.trans [rotated])
qed

lemma scripts_src_load:
  "src (scripts (paths (load e))) = [''src/scripts/**/*.js'', ''!src/scripts/**/*.module.js'']"
  by (simp add: paths_load)

lemma gulp_src_scripts:
  "gulp_src [''src/scripts/**/*.js'', ''!src/scripts/**/*.module.js''] p =
     Inr (take 2 p = [''src'', ''scripts''] \<and> drop 2 p \<noteq> []
           \<and> list_all (\<lambda>d. \<not> dotfile d) (drop 2 p) \<and> suffix ''.js'' (last p)
           \<and> \<not> suffix ''.module.js'' (last p))"
  by (auto simp: gulp_src_def negative_def match_inc match_exc)

lemma deleted_build: "deleted [''build''] p = prefix [''build''] p"
  by (auto simp: deleted_def list_ex_iff match_build in_set_prefixes)


subsection \<open>The selection of the scripts task\<close>

text \<open>
  C9, as stated, fails: \<^verbatim>\<open>src/scripts/.eslintrc.js\<close> is a file under \<^verbatim>\<open>src/scripts\<close>
  whose name ends in \<^verbatim>\<open>.js\<close> and not in \<^verbatim>\<open>.module.js\<close>, and the scripts task does not
  select it, since its name begins with a dot.
\<close>

theorem scripts_selection_counterexample:
  "scripts_selection_spec [''src'', ''scripts'', ''.eslintrc.js'']
   \<and> gulp_src (src (scripts (paths (load [])))) [''src'', ''scripts'', ''.eslintrc.js'']
       = Inr False"
  by (simp add: scripts_selection_spec_def suffix_Cons paths_load gulp_src_def negative_def
      glob_match_def glob_supported_def segment_match_def dotfile_def)


text \<open>
  C9, amended: the scripts task selects exactly the files under \<^verbatim>\<open>src/scripts\<close> whose
  names end in \<^verbatim>\<open>.js\<close> but not in \<^verbatim>\<open>.module.js\<close> and whose path below
  \<^verbatim>\<open>src/scripts\<close> has no component that begins with a dot. A path is selected exactly
  when the inclusion glob matches it and the exclusion glob does not, and no path whose
  name ends in \<^verbatim>\<open>.module.js\<close> is selected.
\<close>

theorem scripts_selection:
  "gulp_src (src (scripts (paths (load e)))) p =
     Inr (scripts_selection_spec p \<and> list_all (\<lambda>d. \<not> dotfile d) (drop 2 p))
   \<and> (\<exists>a b. glob_match ''src/scripts/**/*.js'' p = Some a
          \<and> glob_match ''src/scripts/**/*.module.js'' p = Some b
          \<and> gulp_src (src (scripts (paths (load e)))) p = Inr (a \<and> \<not> b))
   \<and> (suffix ''.module.js'' (last p) \<longrightarrow>
        gulp_src (src (scripts (paths (load e)))) p = Inr False)"
proof -
  have 1: "gulp_src (src (scripts (paths (load e)))) p =
     Inr (scripts_selection_spec p \<and> list_all (\<lambda>d. \<not> dotfile d) (drop 2 p))"
    unfolding scripts_src_load gulp_src_scripts scripts_selection_spec_def by auto
  have 2: "\<exists>a b. glob_match ''src/scripts/**/*.js'' p = Some a
          \<and> glob_match ''src/scripts/**/*.module.js'' p = Some b
          \<and> gulp_src (src (scripts (paths (load e)))) p = Inr (a \<and> \<not> b)"
    unfolding scripts_src_load gulp_src_scripts match_inc match_exc
    by (auto dest: suffix_module_js)
  have 3: "suffix ''.module.js'' (last p) \<longrightarrow>
        gulp_src (src (scripts (paths (load e)))) p = Inr False"
    unfolding 1 by (simp add: scripts_selection_spec_def)
  from 1 2 3 show ?thesis by blast
qed

theorem scripts_selection_witness:
  "gulp_src (src (scripts (paths (load [])))) [''src'', ''scripts'', ''lib'', ''main.js'']
     = Inr True
   \<and> gulp_src (src (scripts (paths (load [])))) [''src'', ''scripts'', ''cart.module.js'']
     = Inr False"
proof -
  have a: "suffix ''.module.js'' (last [''src'', ''scripts'', ''cart.module.js''])"
    by (simp add: suffix_Cons)
  have 1: "gulp_src (src (scripts (paths (load [])))) [''src'', ''scripts'', ''cart.module.js'']
     = Inr False"
    using scripts_selection [of "[]" "[''src'', ''scripts'', ''cart.module.js'']"] a by blast
  have 2: "gulp_src (src (scripts (paths (load [])))) [''src'', ''scripts'', ''lib'', ''main.js'']
     = Inr True"
    using scripts_selection [of "[]" "[''src'', ''scripts'', ''lib'', ''main.js'']"]
    by (simp add: scripts_selection_spec_def suffix_Cons dotfile_def)
  from 2 1 show ?thesis by (rule conjI)
qed


subsection \<open>The clean task\<close>

text \<open>
  C10: the clean task deletes the one pattern \<^verbatim>\<open>build\<close>. Deleting it removes the paths
  at or beneath the directory \<^verbatim>\<open>build\<close> and leaves every other path as it was; in
  particular every path beneath \<^verbatim>\<open>src\<close> keeps its content.
\<close>

theorem clean_frame:
  "gulp_tasks (load e) ''clean'' = Some \<lparr> deps = [], body = [Del [''build'']] \<rparr>
   \<and> del [''build''] fs = Some (\<lambda>p. if prefix [''build''] p then None else fs p)
   \<and> (\<forall>fs'. del [''build''] fs = Some fs' \<longrightarrow>
        (\<forall>p. prefix [''src''] p \<longrightarrow> fs' p = fs p))"
proof -
  have 1: "gulp_tasks (load e) ''clean'' = Some \<lparr> deps = [], body = [Del [''build'']] \<rparr>"
    by (simp add: gulp_tasks_def dirs_load)
  have 2: "del [''build''] fs = Some (\<lambda>p. if prefix [''build''] p then None else fs p)"
    by (simp add: del_def deleted_build glob_supported_def)
  have 3: "\<forall>fs'. del [''build''] fs = Some fs' \<longrightarrow>
        (\<forall>p. prefix [''src''] p \<longrightarrow> fs' p = fs p)"
    unfolding 2 by (auto simp: prefix_def)
  from 1 2 3 show ?thesis by blast
qed

theorem clean_frame_witness:
  "del [''build''] [ [''src'', ''views'', ''index.html''] \<mapsto> ''<html>'',
                    [''build'', ''index.html''] \<mapsto> ''<html>'']
     = Some [ [''src'', ''views'', ''index.html''] \<mapsto> ''<html>'']"
proof -
  let ?fs = "[ [''src'', ''views'', ''index.html''] \<mapsto> ''<html>'',
              [''build'', ''index.html''] \<mapsto> ''<html>'']"
  from clean_frame [of "[]" ?fs]
  have "del [''build''] ?fs = Some (\<lambda>p. if prefix [''build''] p then None else ?fs p)"
    by blast
  moreover have "(\<lambda>p. if prefix [''build''] p then None else ?fs p)
      = [ [''src'', ''views'', ''index.html''] \<mapsto> ''<html>'']"
    by (rule ext) auto
  ultimately show ?thesis by simp
qed

end
